theory Spec2Isabelle
  imports Complex_Main
begin

section \<open>Byte strings and the Python 3 operations the module uses on them\<close>

text \<open>
  The module is read under Python 3 (its header declares it compatible with Python 2 and 3).
  A \<open>bytes\<close> object is a list of 8-bit characters; a \<open>str\<close> object is a list of Unicode
  code points. The two types do not mix: a \<open>bytes\<close> method given a \<open>str\<close> argument raises
  \<open>TypeError\<close>.
\<close>

type_synonym bytes = "char list"

datatype pyval = Bytes bytes | Str "nat list"

text \<open>A one-character separator literal, written \<open>b","\<close> (bytes) or \<open>"\n"\<close> (str).\<close>

datatype sep = BSep char | SSep char

datatype error =
    RuntimeError bytes
  | NotADictionary pyval
  | TypeError
  | ValueError
  | IndexError
  | IOError
  | StructError
  | UnicodeEncodeError

definition CRLF :: bytes where
  "CRLF = [CHR 0x0D, CHR 0x0A]"

definition LF :: char where
  "LF = CHR 0x0A"

text \<open>\<open>bytes.strip()\<close> removes the ASCII whitespace bytes space, TAB, LF, VT, FF and CR.\<close>

definition is_space :: "char \<Rightarrow> bool" where
  "is_space c = (c = CHR 0x20 \<or> c = CHR 0x09 \<or> c = CHR 0x0A \<or> c = CHR 0x0B
                 \<or> c = CHR 0x0C \<or> c = CHR 0x0D)"

definition lstrip :: "bytes \<Rightarrow> bytes" where
  "lstrip s = dropWhile is_space s"

definition rstrip :: "bytes \<Rightarrow> bytes" where
  "rstrip s = rev (dropWhile is_space (rev s))"

definition strip :: "bytes \<Rightarrow> bytes" where
  "strip s = rstrip (lstrip s)"

definition startswith :: "'a list \<Rightarrow> 'a list \<Rightarrow> bool" where
  "startswith s p = (take (length p) s = p)"

definition endswith :: "'a list \<Rightarrow> 'a list \<Rightarrow> bool" where
  "endswith s p = (length p \<le> length s \<and> drop (length s - length p) s = p)"

text \<open>\<open>b":" in s\<close> for a one-byte needle.\<close>

definition contains :: "bytes \<Rightarrow> char \<Rightarrow> bool" where
  "contains s c = (c \<in> set s)"

text \<open>
  \<open>s.split(sep, maxsplit)\<close> for a one-byte separator: at most \<open>maxsplit\<close> cuts, from the
  left; \<open>cur\<close> collects the piece being read.
\<close>

fun split_max :: "nat \<Rightarrow> char \<Rightarrow> bytes \<Rightarrow> bytes \<Rightarrow> bytes list" where
  "split_max n c cur [] = [cur]"
| "split_max 0 c cur (x # xs) = [cur @ x # xs]"
| "split_max (Suc n) c cur (x # xs) =
     (if x = c then cur # split_max n c [] xs else split_max (Suc n) c (cur @ [x]) xs)"

text \<open>\<open>s.split(sep)\<close> with no limit: no piece count can exceed \<open>length s + 1\<close>.\<close>

definition split_all :: "char \<Rightarrow> bytes \<Rightarrow> bytes list" where
  "split_all c s = split_max (length s) c [] s"

definition bytes_split :: "bytes \<Rightarrow> sep \<Rightarrow> error + bytes list" where
  "bytes_split s sp = (case sp of SSep _ \<Rightarrow> Inl TypeError | BSep c \<Rightarrow> Inr (split_all c s))"

definition bytes_split_max :: "bytes \<Rightarrow> sep \<Rightarrow> nat \<Rightarrow> error + bytes list" where
  "bytes_split_max s sp n =
     (case sp of SSep _ \<Rightarrow> Inl TypeError | BSep c \<Rightarrow> Inr (split_max n c [] s))"

text \<open>\<open>s.rsplit(sep, maxsplit)\<close>: the same cuts, counted from the right.\<close>

definition bytes_rsplit_max :: "bytes \<Rightarrow> sep \<Rightarrow> nat \<Rightarrow> error + bytes list" where
  "bytes_rsplit_max s sp n =
     (case sp of SSep _ \<Rightarrow> Inl TypeError
      | BSep c \<Rightarrow> Inr (rev (map rev (split_max n c [] (rev s)))))"

text \<open>\<open>str.encode()\<close>: UTF-8, strict; a surrogate code point cannot be encoded.\<close>

definition byte :: "nat \<Rightarrow> char" where
  "byte n = char_of n"

definition utf8 :: "nat \<Rightarrow> error + bytes" where
  "utf8 n =
     (if n < 0x80 then Inr [byte n]
      else if n < 0x800 then Inr [byte (0xC0 + n div 64), byte (0x80 + n mod 64)]
      else if 0xD800 \<le> n \<and> n < 0xE000 then Inl UnicodeEncodeError
      else if n < 0x10000 then
        Inr [byte (0xE0 + n div 4096), byte (0x80 + n div 64 mod 64), byte (0x80 + n mod 64)]
      else if n < 0x110000 then
        Inr [byte (0xF0 + n div 262144), byte (0x80 + n div 4096 mod 64),
             byte (0x80 + n div 64 mod 64), byte (0x80 + n mod 64)]
      else Inl UnicodeEncodeError)"

fun encode :: "nat list \<Rightarrow> error + bytes" where
  "encode [] = Inr []"
| "encode (n # ns) =
     (case utf8 n of Inl e \<Rightarrow> Inl e
      | Inr b \<Rightarrow> (case encode ns of Inl e \<Rightarrow> Inl e | Inr bs \<Rightarrow> Inr (b @ bs)))"

section \<open>The transport\<close>

text \<open>
  \<open>self.dev\<close> is a socket or a \<open>serial.Serial\<close> object; both belong to libraries outside the
  module. They are modelled by one queue of events still to be delivered: \<open>Data c\<close> is a
  block of bytes that one read can deliver (an empty block is a read that yields nothing),
  \<open>Fault\<close> makes the next read raise \<open>IOError\<close> (\<open>serial.SerialException\<close> is a subclass).
  \<open>reply\<close> is the instrument: the events it queues in answer to a written message.
  Time is not modelled: a poll sees what is queued, whatever its timeout.
\<close>

datatype event = Data bytes | Fault

record device =
  is_usb :: bool
  rx :: "event list"
  tx :: "bytes list"
  reply :: "bytes \<Rightarrow> event list"

text \<open>\<open>socket.recv(n)\<close> and \<open>Serial.read(n)\<close>: at most \<open>n\<close> bytes of the block at the head.\<close>

definition dev_read :: "device \<Rightarrow> int \<Rightarrow> (error + bytes) \<times> device" where
  "dev_read d n =
     (case rx d of
        [] \<Rightarrow> (Inr [], d)
      | Fault # r \<Rightarrow> (Inl IOError, d\<lparr>rx := r\<rparr>)
      | Data c # r \<Rightarrow>
          (Inr (take (nat n) c),
           d\<lparr>rx := (if nat n < length c then Data (drop (nat n) c) # r else r)\<rparr>))"

text \<open>
  \<open>Serial.readline(n)\<close>: the bytes of the block at the head up to and including the first
  LF, at most \<open>n\<close> of them.
\<close>

definition first_line :: "nat \<Rightarrow> bytes \<Rightarrow> bytes" where
  "first_line n c =
     take n (takeWhile (\<lambda>x. x \<noteq> LF) c @ take 1 (dropWhile (\<lambda>x. x \<noteq> LF) c))"

definition dev_readline :: "device \<Rightarrow> int \<Rightarrow> (error + bytes) \<times> device" where
  "dev_readline d n =
     (case rx d of
        [] \<Rightarrow> (Inr [], d)
      | Fault # r \<Rightarrow> (Inl IOError, d\<lparr>rx := r\<rparr>)
      | Data c # r \<Rightarrow>
          (let line = first_line (nat n) c
           in (Inr line,
               d\<lparr>rx := (if length line < length c then Data (drop (length line) c) # r
                          else r)\<rparr>)))"

text \<open>\<open>Serial.inWaiting()\<close>: the number of bytes ready; raises when the port is gone.\<close>

definition dev_inWaiting :: "device \<Rightarrow> error + nat" where
  "dev_inWaiting d =
     (case rx d of [] \<Rightarrow> Inr 0 | Fault # r \<Rightarrow> Inl IOError | Data c # r \<Rightarrow> Inr (length c))"

text \<open>\<open>select.select([dev], [], [], timeout)\<close>: the socket is readable.\<close>

definition dev_select :: "device \<Rightarrow> bool" where
  "dev_select d = (rx d \<noteq> [])"

text \<open>\<open>socket.send\<close> and \<open>Serial.write\<close>: the message goes out and the instrument answers.\<close>

definition dev_write :: "device \<Rightarrow> bytes \<Rightarrow> device" where
  "dev_write d m = d\<lparr>tx := tx d @ [m], rx := rx d @ reply d m\<rparr>"

section \<open>MOGDevice\<close>

subsection \<open>Construction: the connection target\<close>

definition digit :: "nat \<Rightarrow> char" where
  "digit n = ''0123456789'' ! n"

fun digits :: "nat \<Rightarrow> string" where
  "digits n = (if n < 10 then [digit n] else digits (n div 10) @ [digit (n mod 10)])"

declare digits.simps [simp del]

text \<open>\<open>"%d" % port\<close>\<close>

definition fmt_d :: "int \<Rightarrow> string" where
  "fmt_d i = (if i < 0 then CHR ''-'' # digits (nat (- i)) else digits (nat i))"

text \<open>
  \<open>__init__\<close> up to the call of \<open>reconnect\<close>: the fields \<open>connection\<close> and \<open>is_usb\<close>.
  \<open>addr.split(" ", 1)[0]\<close> is the text before the first space.
\<close>

definition init :: "string \<Rightarrow> int option \<Rightarrow> string \<times> bool" where
  "init addr port =
     (if startswith addr ''COM'' \<or> addr = ''USB'' then
        (let addr1 = (case port of None \<Rightarrow> addr | Some p \<Rightarrow> ''COM'' @ fmt_d p);
             addr2 = takeWhile (\<lambda>x. x \<noteq> CHR '' '') addr1
         in (addr2, True))
      else
        (if CHR '':'' \<notin> set addr then
           (let port1 = (case port of None \<Rightarrow> 7802 | Some p \<Rightarrow> p)
            in (addr @ '':'' @ fmt_d port1, False))
         else (addr, False)))"

subsection \<open>Sending\<close>

definition send_raw :: "device \<Rightarrow> bytes \<Rightarrow> device" where
  "send_raw d m = dev_write d m"

definition send :: "device \<Rightarrow> pyval \<Rightarrow> (error + unit) \<times> device" where
  "send d c =
     (case (case c of Str s \<Rightarrow> encode s | Bytes b \<Rightarrow> Inr b) of
        Inl e \<Rightarrow> (Inl e, d)
      | Inr m \<Rightarrow> (Inr (), send_raw d (if \<not> endswith m CRLF then m @ CRLF else m)))"

subsection \<open>Receiving\<close>

text \<open>
  \<open>has_data\<close>: \<open>time.sleep\<close> changes nothing in the model, so the second \<open>inWaiting\<close> sees the
  queue the first one saw. The \<open>except serial.SerialException\<close> clause answers \<open>False\<close>.
\<close>

definition has_data :: "device \<Rightarrow> rat \<Rightarrow> bool" where
  "has_data d timeout =
     (if is_usb d then
        (case dev_inWaiting d of
           Inl e \<Rightarrow> False
         | Inr n \<Rightarrow>
             if n \<noteq> 0 then True
             else if timeout = 0 then False
             else (case dev_inWaiting d of Inl e \<Rightarrow> False | Inr m \<Rightarrow> m > 0))
      else dev_select d)"

text \<open>
  \<open>recv\<close> is modelled at \<open>buffer = 256\<close>, its default and the value at every call in the
  module. The serial branch's \<open>while True\<close> loop and the socket branch's
  \<open>while self.has_data(timeout)\<close> loop are the two functions below; \<open>data\<close> is the
  accumulated response. The serial read timeout that \<open>recv\<close> sets and restores is not
  part of the state.
\<close>

definition esize :: "event \<Rightarrow> nat" where
  "esize e = (case e of Data c \<Rightarrow> Suc (length c) | Fault \<Rightarrow> 1)"

definition qsize :: "device \<Rightarrow> nat" where
  "qsize d = sum_list (map esize (rx d))"

lemma first_line_nonempty: "c \<noteq> [] \<Longrightarrow> 0 < n \<Longrightarrow> first_line n c \<noteq> []"
  by (cases c) (auto simp: first_line_def)

lemma first_line_length: "length (first_line n c) \<le> length c"
proof -
  have "length (takeWhile (\<lambda>x. x \<noteq> LF) c) + length (dropWhile (\<lambda>x. x \<noteq> LF) c) = length c"
    by (metis length_append takeWhile_dropWhile_id)
  then show ?thesis by (simp add: first_line_def)
qed

lemma dev_readline_qsize:
  "dev_readline d n = (res, d') \<Longrightarrow> qsize d' \<le> qsize d"
  using first_line_length [of "nat n"]
  by (auto simp: dev_readline_def qsize_def esize_def Let_def
           split: list.splits event.splits if_splits)

lemma dev_readline_qsize_less:
  assumes "dev_readline d n = (Inr seg, d')" and "seg \<noteq> []"
  shows "qsize d' < qsize d"
proof (cases "rx d")
  case Nil
  with assms show ?thesis by (simp add: dev_readline_def)
next
  case (Cons e r)
  show ?thesis
  proof (cases e)
    case Fault
    with Cons assms show ?thesis by (simp add: dev_readline_def)
  next
    case (Data c)
    define k where "k = length (first_line (nat n) c)"
    from Data Cons assms have seg: "seg = first_line (nat n) c"
      by (auto simp: dev_readline_def Let_def)
    with assms have k: "0 < k" by (simp add: k_def)
    from Data Cons assms
    have rx': "rx d' = (if k < length c then Data (drop k c) # r else r)"
      by (auto simp: dev_readline_def Let_def k_def)
    have "qsize d' < Suc (length c) + sum_list (map esize r)"
      using k by (auto simp: rx' qsize_def esize_def)
    with Data Cons show ?thesis by (simp add: qsize_def esize_def)
  qed
qed

lemma dev_read_qsize:
  "dev_read d n = (res, d') \<Longrightarrow> qsize d' \<le> qsize d"
  by (auto simp: dev_read_def qsize_def esize_def split: list.splits event.splits if_splits)

lemma dev_read_qsize_less:
  "dev_read d n = (res, d') \<Longrightarrow> rx d \<noteq> [] \<Longrightarrow> 0 < n \<Longrightarrow> qsize d' < qsize d"
  by (auto simp: dev_read_def qsize_def esize_def split: list.splits event.splits if_splits)

lemma has_data_rx: "has_data d t \<Longrightarrow> rx d \<noteq> []"
  by (auto simp: has_data_def dev_inWaiting_def dev_select_def
           split: if_splits list.splits event.splits)

function recv_usb_loop :: "device \<Rightarrow> bytes \<Rightarrow> (error + bytes) \<times> device" where
  "recv_usb_loop d data =
     (case dev_readline d 256 of
        (Inl e, d') \<Rightarrow> (Inl e, d')
      | (Inr segment, d') \<Rightarrow>
          if length segment = 0 then (Inr data, d')
          else recv_usb_loop d' (data @ segment))"
  by pat_completeness auto
termination
  by (relation "measure (\<lambda>(d, data). qsize d)") (auto dest: dev_readline_qsize_less [OF sym])

function recv_sock_loop :: "device \<Rightarrow> rat \<Rightarrow> bytes \<Rightarrow> (error + bytes) \<times> device" where
  "recv_sock_loop d timeout data =
     (if has_data d timeout then
        (case dev_read d 256 of
           (Inl e, d') \<Rightarrow> if length data \<noteq> 0 then (Inr data, d') else (Inl e, d')
         | (Inr segment, d') \<Rightarrow> recv_sock_loop d' timeout (data @ segment))
      else (Inr data, d))"
  by pat_completeness auto
termination
  by (relation "measure (\<lambda>(d, timeout, data). qsize d)")
     (auto dest: has_data_rx intro: dev_read_qsize_less [OF sym])

declare recv_usb_loop.simps [simp del]
declare recv_sock_loop.simps [simp del]

definition recv :: "device \<Rightarrow> (error + bytes) \<times> device" where
  "recv d =
     (if is_usb d then
        (case dev_readline d 256 of
           (Inl e, d1) \<Rightarrow> (Inl e, d1)
         | (Inr data, d1) \<Rightarrow>
             (case (if length data \<noteq> 0 then recv_usb_loop d1 data else (Inr data, d1)) of
                (Inl e, d2) \<Rightarrow> (Inl e, d2)
              | (Inr data', d2) \<Rightarrow>
                  if length data' = 0 then (Inl (RuntimeError ''Timed out''), d2)
                  else (Inr data', d2)))
      else
        (case dev_read d 256 of
           (Inl e, d1) \<Rightarrow> (Inl e, d1)
         | (Inr data, d1) \<Rightarrow>
             recv_sock_loop d1 (if endswith data CRLF then 0 else 1 / 10) data))"

lemma recv_usb_loop_qsize: "recv_usb_loop d data = (res, d') \<Longrightarrow> qsize d' \<le> qsize d"
proof (induction d data arbitrary: res d' rule: recv_usb_loop.induct)
  case (1 d data)
  obtain r1 d1 where rl: "dev_readline d 256 = (r1, d1)" by (cases "dev_readline d 256")
  then have le: "qsize d1 \<le> qsize d" by (rule dev_readline_qsize)
  show ?case
  proof (cases r1)
    case (Inl e)
    with rl "1.prems" le show ?thesis by (simp add: recv_usb_loop.simps [of d])
  next
    case (Inr segment)
    show ?thesis
    proof (cases "length segment = 0")
      case True
      with Inr rl "1.prems" le show ?thesis by (simp add: recv_usb_loop.simps [of d])
    next
      case False
      with Inr rl "1.prems" have "recv_usb_loop d1 (data @ segment) = (res, d')"
        by (simp add: recv_usb_loop.simps [of d])
      then have "qsize d' \<le> qsize d1" by (rule "1.IH" [OF rl [symmetric] Inr False])
      with le show ?thesis by simp
    qed
  qed
qed

lemma recv_sock_loop_qsize:
  "recv_sock_loop d t data = (res, d') \<Longrightarrow> qsize d' \<le> qsize d"
proof (induction d t data arbitrary: res d' rule: recv_sock_loop.induct)
  case (1 d t data)
  show ?case
  proof (cases "has_data d t")
    case False
    with "1.prems" show ?thesis by (simp add: recv_sock_loop.simps [of d])
  next
    case True
    obtain r1 d1 where rd: "dev_read d 256 = (r1, d1)" by (cases "dev_read d 256")
    then have le: "qsize d1 \<le> qsize d" by (rule dev_read_qsize)
    show ?thesis
    proof (cases r1)
      case (Inl e)
      with True rd "1.prems" le show ?thesis
        by (auto simp: recv_sock_loop.simps [of d] split: if_splits)
    next
      case (Inr segment)
      with True rd "1.prems" have "recv_sock_loop d1 t (data @ segment) = (res, d')"
        by (simp add: recv_sock_loop.simps [of d])
      then have "qsize d' \<le> qsize d1" by (rule "1.IH" [OF True rd [symmetric] Inr])
      with le show ?thesis by simp
    qed
  qed
qed

lemma has_data_usb_head:
  "is_usb d \<Longrightarrow> has_data d t \<Longrightarrow> \<exists>c r. rx d = Data c # r \<and> c \<noteq> []"
  by (auto simp: has_data_def dev_inWaiting_def split: if_splits list.splits event.splits)

lemma recv_qsize_less:
  assumes "has_data d t" and "recv d = (Inr r, d')"
  shows "qsize d' < qsize d"
proof (cases "is_usb d")
  case True
  obtain r1 d1 where rl: "dev_readline d 256 = (r1, d1)" by (cases "dev_readline d 256")
  from has_data_usb_head [OF True assms(1)] obtain c q where hd: "rx d = Data c # q" "c \<noteq> []"
    by blast
  with rl have r1: "r1 = Inr (first_line 256 c)" by (auto simp: dev_readline_def Let_def)
  have ne: "first_line 256 c \<noteq> []" using hd(2) by (simp add: first_line_nonempty)
  from rl r1 ne have lt: "qsize d1 < qsize d" by (auto dest: dev_readline_qsize_less)
  obtain r2 d2 where lp: "recv_usb_loop d1 (first_line 256 c) = (r2, d2)"
    by (cases "recv_usb_loop d1 (first_line 256 c)")
  then have "qsize d2 \<le> qsize d1" by (rule recv_usb_loop_qsize)
  moreover from assms(2) True rl r1 ne lp have "d' = d2"
    by (auto simp: recv_def split: sum.splits if_splits)
  ultimately show ?thesis using lt by simp
next
  case False
  obtain r1 d1 where rd: "dev_read d 256 = (r1, d1)" by (cases "dev_read d 256")
  from assms(1) have "rx d \<noteq> []" by (rule has_data_rx)
  with rd have lt: "qsize d1 < qsize d" by (auto intro: dev_read_qsize_less)
  from assms(2) False rd obtain data tm where "recv_sock_loop d1 tm data = (Inr r, d')"
    by (auto simp: recv_def split: sum.splits)
  then have "qsize d' \<le> qsize d1" by (rule recv_sock_loop_qsize)
  with lt show ?thesis by simp
qed

text \<open>
  \<open>flush\<close>, at \<open>buffer = 256\<close>; the loop is \<open>flush_loop\<close> and \<open>dat\<close> what it has drained.
  The \<open>logger.debug\<close> calls of the module have no effect on the state.
\<close>

function flush_loop :: "device \<Rightarrow> rat \<Rightarrow> bytes \<Rightarrow> (error + bytes) \<times> device" where
  "flush_loop d timeout dat =
     (if has_data d timeout then
        (case recv d of
           (Inl e, d') \<Rightarrow> (Inl e, d')
         | (Inr r, d') \<Rightarrow> flush_loop d' timeout (dat @ r))
      else (Inr dat, d))"
  by pat_completeness auto
termination
  by (relation "measure (\<lambda>(d, timeout, dat). qsize d)")
     (auto intro: recv_qsize_less [OF _ sym])

declare flush_loop.simps [simp del]

definition flush :: "device \<Rightarrow> rat \<Rightarrow> (error + bytes) \<times> device" where
  "flush d timeout = flush_loop d timeout []"

text \<open>\<open>recv_raw\<close>: \<open>sz\<close> is the source's \<open>size\<close>, \<open>parts\<close> the list of chunks, joined at the end.\<close>

function recv_raw_loop :: "device \<Rightarrow> int \<Rightarrow> bytes list \<Rightarrow> (error + bytes list) \<times> device"
  where
  "recv_raw_loop d sz parts =
     (if sz > 0 then
        (case (if is_usb d then dev_read d sz else dev_read d sz) of
           (Inl e, d') \<Rightarrow> (Inl e, d')
         | (Inr chunk, d') \<Rightarrow>
             if length chunk = 0 then (Inr parts, d')
             else recv_raw_loop d' (sz - int (length chunk)) (parts @ [chunk]))
      else (Inr parts, d))"
  by pat_completeness auto
termination
  by (relation "measure (\<lambda>(d, sz, parts). nat sz)") auto

declare recv_raw_loop.simps [simp del]

definition recv_raw :: "device \<Rightarrow> int \<Rightarrow> (error + bytes) \<times> device" where
  "recv_raw d sz =
     (case recv_raw_loop d sz [] of
        (Inl e, d') \<Rightarrow> (Inl e, d')
      | (Inr parts, d') \<Rightarrow> (Inr (concat parts), d'))"

subsection \<open>Requests\<close>

definition ask :: "device \<Rightarrow> pyval \<Rightarrow> (error + bytes) \<times> device" where
  "ask d c =
     (case flush d 0 of
        (Inl e, d1) \<Rightarrow> (Inl e, d1)
      | (Inr _, d1) \<Rightarrow>
          (case send d1 c of
             (Inl e, d2) \<Rightarrow> (Inl e, d2)
           | (Inr _, d2) \<Rightarrow>
               (case recv d2 of
                  (Inl e, d3) \<Rightarrow> (Inl e, d3)
                | (Inr raw, d3) \<Rightarrow>
                    (let resp = strip raw
                     in if startswith resp ''ERR:''
                        then (Inl (RuntimeError (strip (drop 4 resp))), d3)
                        else (Inr resp, d3)))))"

definition cmd :: "device \<Rightarrow> pyval \<Rightarrow> (error + bytes) \<times> device" where
  "cmd d c =
     (case ask d c of
        (Inl e, d1) \<Rightarrow> (Inl e, d1)
      | (Inr resp, d1) \<Rightarrow>
          if startswith resp ''OK'' then (Inr resp, d1) else (Inl (RuntimeError resp), d1))"

text \<open>
  A dictionary that keeps insertion order (\<open>OrderedDict\<close>, and \<open>dict\<close> since Python 3.7):
  assigning to a key already present keeps its place.
\<close>

type_synonym dict = "(bytes \<times> bytes) list"

fun dict_set :: "dict \<Rightarrow> bytes \<Rightarrow> bytes \<Rightarrow> dict" where
  "dict_set [] k v = [(k, v)]"
| "dict_set ((k', v') # kvs) k v =
     (if k' = k then (k, v) # kvs else (k', v') # dict_set kvs k v)"

text \<open>\<open>a, b = pieces\<close> raises \<open>ValueError\<close> unless there are exactly two pieces.\<close>

fun unpack2 :: "bytes list \<Rightarrow> error + bytes \<times> bytes" where
  "unpack2 [a, b] = Inr (a, b)"
| "unpack2 _ = Inl ValueError"

text \<open>\<open>xs[i]\<close> for \<open>i \<ge> 0\<close>.\<close>

fun index :: "'a list \<Rightarrow> nat \<Rightarrow> error + 'a" where
  "index [] i = Inl IndexError"
| "index (x # xs) 0 = Inr x"
| "index (x # xs) (Suc i) = index xs i"

fun ask_dict_loop :: "bytes list \<Rightarrow> dict \<Rightarrow> error + dict" where
  "ask_dict_loop [] vals = Inr vals"
| "ask_dict_loop (entry # entries) vals =
     (case bytes_split entry (BSep (CHR '':'')) of
        Inl e \<Rightarrow> Inl e
      | Inr pieces \<Rightarrow>
          (case unpack2 pieces of
             Inl e \<Rightarrow> Inl e
           | Inr (name, val) \<Rightarrow> ask_dict_loop entries (dict_set vals (strip name) (strip val))))"

definition ask_dict :: "device \<Rightarrow> pyval \<Rightarrow> (error + dict) \<times> device" where
  "ask_dict d c =
     (case ask d c of
        (Inl e, d1) \<Rightarrow> (Inl e, d1)
      | (Inr resp0, d1) \<Rightarrow>
          (let resp = (if startswith resp0 ''OK'' then strip (drop 3 resp0) else resp0)
           in if \<not> contains resp (CHR '':'') then (Inl (NotADictionary c), d1)
              else
                (case bytes_split resp
                        (if contains resp (CHR '','') then BSep (CHR '','') else BSep LF) of
                   Inl e \<Rightarrow> (Inl e, d1)
                 | Inr entries \<Rightarrow> (ask_dict_loop entries [], d1))))"

text \<open>\<open>unpack("<L", head)[0]\<close>: four bytes, least significant first.\<close>

definition unpack_L :: "bytes \<Rightarrow> error + nat" where
  "unpack_L h =
     (case h of
        [b0, b1, b2, b3] \<Rightarrow>
          Inr (of_char b0 + 256 * of_char b1 + 65536 * of_char b2 + 16777216 * of_char b3)
      | _ \<Rightarrow> Inl StructError)"

definition ask_bin :: "device \<Rightarrow> pyval \<Rightarrow> (error + bytes) \<times> device" where
  "ask_bin d c =
     (case send d c of
        (Inl e, d1) \<Rightarrow> (Inl e, d1)
      | (Inr _, d1) \<Rightarrow>
          (case recv_raw d1 4 of
             (Inl e, d2) \<Rightarrow> (Inl e, d2)
           | (Inr head, d2) \<Rightarrow>
               if head = ''ERR:'' then
                 (case recv d2 of
                    (Inl e, d3) \<Rightarrow> (Inl e, d3)
                  | (Inr r, d3) \<Rightarrow> (Inl (RuntimeError (strip r)), d3))
               else
                 (case unpack_L head of
                    Inl e \<Rightarrow> (Inl e, d2)
                  | Inr datalen \<Rightarrow>
                      (case recv_raw d2 (int datalen) of
                         (Inl e, d3) \<Rightarrow> (Inl e, d3)
                       | (Inr data, d3) \<Rightarrow>
                           if length data \<noteq> datalen then
                             (Inl (RuntimeError ''Binary response block has incorrect length''),
                              d3)
                           else (Inr data, d3)))))"

text \<open>
  \<open>versions\<close>: the separator \<open>tk\<close> is the bytes literal \<open>b","\<close> or the str literal \<open>"\n"\<close>,
  and the separator of \<open>rsplit\<close> is the str literal \<open>" "\<close>, as the source writes them.
\<close>

fun versions_loop :: "bytes list \<Rightarrow> dict \<Rightarrow> error + dict" where
  "versions_loop [] vers = Inr vers"
| "versions_loop (l # ls) vers =
     (if startswith l ''OK'' then versions_loop ls vers
      else
        (case bytes_split_max l (BSep (CHR '':'')) 2 of
           Inl e \<Rightarrow> Inl e
         | Inr pieces \<Rightarrow>
             (case unpack2 pieces of
                Inl e \<Rightarrow> Inl e
              | Inr (n, v0) \<Rightarrow>
                  (case (if contains (strip v0) (CHR '' '') then
                           (case bytes_rsplit_max (strip v0) (SSep (CHR '' '')) 2 of
                              Inl e \<Rightarrow> Inl e
                            | Inr qs \<Rightarrow>
                                (case index qs 1 of Inl e \<Rightarrow> Inl e | Inr w \<Rightarrow> Inr (strip w)))
                         else Inr (strip v0)) of
                     Inl e \<Rightarrow> Inl e
                   | Inr v \<Rightarrow> versions_loop ls (dict_set vers (strip n) v)))))"

definition versions :: "device \<Rightarrow> (error + dict) \<times> device" where
  "versions d =
     (case ask d (Bytes ''version'') of
        (Inl e, d1) \<Rightarrow> (Inl e, d1)
      | (Inr verstr, d1) \<Rightarrow>
          if verstr = ''Command not defined'' then
            (Inl (RuntimeError ''Incompatible firmware''), d1)
          else if contains verstr (CHR '':'') then
            (case bytes_split verstr
                    (if contains verstr (CHR '','') then BSep (CHR '','') else SSep LF) of
               Inl e \<Rightarrow> (Inl e, d1)
             | Inr ls \<Rightarrow> (versions_loop ls [], d1))
          else (Inr (dict_set [] ''UC'' (strip verstr)), d1))"

subsection \<open>The exchange with the instrument, and instruments for the examples\<close>

text \<open>
  The raw response of the device to a command: what \<open>recv\<close> returns after \<open>flush\<close> and
  \<open>send\<close>, the three calls \<open>ask\<close> makes.
\<close>

definition exchange :: "device \<Rightarrow> pyval \<Rightarrow> (error + bytes) \<times> device" where
  "exchange d c =
     (case flush d 0 of
        (Inl e, d1) \<Rightarrow> (Inl e, d1)
      | (Inr _, d1) \<Rightarrow>
          (case send d1 c of (Inl e, d2) \<Rightarrow> (Inl e, d2) | (Inr _, d2) \<Rightarrow> recv d2))"

text \<open>
  The header of a binary block that announces 5 bytes;
  a response line as the instrument sends it, ended by CRLF; an instrument with nothing
  queued that answers every message with the one block \<open>r\<close>; and one whose queue already
  holds the blocks \<open>cs\<close> and that answers nothing.
\<close>

definition header5 :: bytes where
  "header5 = [CHR 0x05, CHR 0x00, CHR 0x00, CHR 0x00]"

definition line :: "bytes \<Rightarrow> bytes" where
  "line s = s @ CRLF"

definition answers :: "bool \<Rightarrow> bytes \<Rightarrow> device" where
  "answers usb r = \<lparr>is_usb = usb, rx = [], tx = [], reply = (\<lambda>m. [Data r])\<rparr>"

definition holds :: "bool \<Rightarrow> bytes list \<Rightarrow> device" where
  "holds usb cs = \<lparr>is_usb = usb, rx = map Data cs, tx = [], reply = (\<lambda>m. [])\<rparr>"

section \<open>Properties\<close>

subsection \<open>Sending\<close>

lemma endswith_append: "endswith (p @ s) s"
  by (simp add: endswith_def)

lemma endswith_split: "endswith C s \<Longrightarrow> C = take (length C - length s) C @ s"
  by (metis append_take_drop_id endswith_def)

lemma byte_info:
  "byte 105 = CHR ''i''" "byte 110 = CHR ''n''" "byte 102 = CHR ''f''" "byte 111 = CHR ''o''"
  unfolding byte_def by code_simp+

lemma encode_info: "encode [105, 110, 102, 111] = Inr ''info''"
  by (simp add: utf8_def byte_info)

text \<open>
  C7. For every command \<open>C\<close> of bytes that does not end with CRLF, \<open>send\<close> transmits exactly
  \<open>C\<close> followed by CRLF; for every \<open>C\<close> that already ends with CRLF it transmits \<open>C\<close>
  unmodified; a string is first encoded to bytes and then treated the same way.
\<close>

theorem send_appends_CRLF:
  "(\<not> endswith C CRLF \<longrightarrow>
      fst (send d (Bytes C)) = Inr () \<and> tx (snd (send d (Bytes C))) = tx d @ [C @ CRLF]) \<and>
   (endswith C CRLF \<longrightarrow>
      fst (send d (Bytes C)) = Inr () \<and> tx (snd (send d (Bytes C))) = tx d @ [C]) \<and>
   (encode s = Inr C \<longrightarrow> send d (Str s) = send d (Bytes C))"
  by (simp add: send_def send_raw_def dev_write_def)

theorem send_appends_CRLF_witness:
  "\<not> endswith ''info'' CRLF \<and>
   tx (snd (send (answers False ''OK'') (Bytes ''info''))) = [''info'' @ CRLF] \<and>
   endswith (''info'' @ CRLF) CRLF \<and>
   tx (snd (send (answers False ''OK'') (Bytes (''info'' @ CRLF)))) = [''info'' @ CRLF] \<and>
   encode [105, 110, 102, 111] = Inr ''info'' \<and>
   tx (snd (send (answers False ''OK'') (Str [105, 110, 102, 111]))) = [''info'' @ CRLF]"
proof -
  have a: "\<not> endswith ''info'' CRLF" by (simp add: endswith_def CRLF_def)
  have b: "endswith (''info'' @ CRLF) CRLF" by (rule endswith_append)
  have t: "tx (answers False ''OK'') = []" by (simp add: answers_def)
  from send_appends_CRLF [of "''info''" "answers False ''OK''" "[105, 110, 102, 111]"]
    send_appends_CRLF [of "''info'' @ CRLF" "answers False ''OK''" "[]"]
    a b t encode_info
  show ?thesis by simp
qed

subsection \<open>The connection target\<close>

lemma fmt_d_7802: "fmt_d 7802 = ''7802''"
  by (simp add: fmt_d_def digit_def digits.simps [of 7802] digits.simps [of 780]
        digits.simps [of 78] digits.simps [of 7])

text \<open>
  C8. An address that begins with \<open>COM\<close> or equals \<open>USB\<close> selects the serial transport; any
  other address without a colon, with no port given, selects the network transport with the
  connection set to the address followed by \<open>:7802\<close>.
\<close>

theorem init_selects_transport:
  "(startswith addr ''COM'' \<or> addr = ''USB'' \<longrightarrow> snd (init addr port) = True) \<and>
   (\<not> startswith addr ''COM'' \<and> addr \<noteq> ''USB'' \<and> CHR '':'' \<notin> set addr \<longrightarrow>
      init addr None = (addr @ '':7802'', False))"
  by (simp add: init_def Let_def fmt_d_7802)

theorem init_selects_transport_witness:
  "startswith ''COM3'' ''COM'' \<and> snd (init ''COM3'' None) = True \<and>
   snd (init ''USB'' (Some 2)) = True \<and>
   \<not> startswith ''10.1.1.23'' ''COM'' \<and> ''10.1.1.23'' \<noteq> ''USB'' \<and>
   CHR '':'' \<notin> set ''10.1.1.23'' \<and>
   init ''10.1.1.23'' None = (''10.1.1.23:7802'', False)"
proof -
  have a: "startswith ''COM3'' ''COM''" by (simp add: startswith_def)
  have b: "\<not> startswith ''10.1.1.23'' ''COM''" by (simp add: startswith_def)
  from init_selects_transport [of "''COM3''" None] init_selects_transport [of "''USB''" "Some 2"]
    init_selects_transport [of "''10.1.1.23''" None] a b
  show ?thesis by simp
qed

subsection \<open>Flushing\<close>

lemma ask_quiet_OK: "fst (ask (answers False (''OK'' @ CRLF)) (Bytes ''info'')) = Inr ''OK''"
  by code_simp

text \<open>
  C9. When \<open>has_data\<close> is false at the first poll, \<open>flush\<close> returns the empty buffer and
  leaves the device as it was, so that an \<open>ask\<close> after it behaves as an \<open>ask\<close> without it.
\<close>

theorem flush_no_data:
  "\<not> has_data d t \<Longrightarrow>
     flush d t = (Inr [], d) \<and> ask (snd (flush d t)) c = ask d c"
  by (simp add: flush_def flush_loop.simps [of d])

theorem flush_no_data_witness:
  "\<not> has_data (answers False (''OK'' @ CRLF)) 0 \<and>
   flush (answers False (''OK'' @ CRLF)) 0 = (Inr [], answers False (''OK'' @ CRLF)) \<and>
   ask (snd (flush (answers False (''OK'' @ CRLF)) 0)) (Bytes ''info'')
     = ask (answers False (''OK'' @ CRLF)) (Bytes ''info'') \<and>
   fst (ask (answers False (''OK'' @ CRLF)) (Bytes ''info'')) = Inr ''OK''"
proof -
  have a: "\<not> has_data (answers False (''OK'' @ CRLF)) 0"
    by (simp add: has_data_def answers_def dev_select_def)
  from flush_no_data [OF a, of "Bytes ''info''"] a ask_quiet_OK show ?thesis by simp
qed

subsection \<open>Receiving a fixed number of bytes\<close>

lemma dev_read_length:
  "dev_read d n = (Inr chunk, d') \<Longrightarrow> 0 < n \<Longrightarrow> int (length chunk) \<le> n"
  by (auto simp: dev_read_def split: list.splits event.splits)

lemma dev_read_error: "dev_read d n = (Inl e, d') \<Longrightarrow> e = IOError"
  by (auto simp: dev_read_def split: list.splits event.splits)

lemma dev_read_no_fault:
  "Fault \<notin> set (rx d) \<Longrightarrow> \<exists>chunk d'. dev_read d n = (Inr chunk, d') \<and> Fault \<notin> set (rx d')"
  by (auto simp: dev_read_def split: list.splits event.splits)

lemma recv_raw_loop_bound:
  "0 \<le> sz \<Longrightarrow>
   (case recv_raw_loop d sz parts of
      (Inl e, d') \<Rightarrow> e = IOError
    | (Inr ps, d') \<Rightarrow> int (length (concat ps)) \<le> int (length (concat parts)) + sz)"
proof (induction d sz parts rule: recv_raw_loop.induct)
  case (1 d sz parts)
  show ?case
  proof (cases "sz > 0")
    case False
    then have "recv_raw_loop d sz parts = (Inr parts, d)"
      by (simp add: recv_raw_loop.simps [of d sz])
    with "1.prems" show ?thesis by simp
  next
    case True
    obtain r1 d1 where rd: "dev_read d sz = (r1, d1)" by (cases "dev_read d sz")
    show ?thesis
    proof (cases r1)
      case (Inl e)
      with rd have "e = IOError" by (auto dest: dev_read_error)
      with True rd Inl show ?thesis by (simp add: recv_raw_loop.simps [of d sz])
    next
      case (Inr chunk)
      with rd True have len: "int (length chunk) \<le> sz" by (auto dest: dev_read_length)
      show ?thesis
      proof (cases "length chunk = 0")
        case True
        with \<open>sz > 0\<close> rd Inr show ?thesis by (simp add: recv_raw_loop.simps [of d sz])
      next
        case False
        have rd': "(r1, d1) = (if is_usb d then dev_read d sz else dev_read d sz)"
          using rd by simp
        from len have "0 \<le> sz - int (length chunk)" by simp
        from "1.IH" [OF True rd' Inr False this]
        have "case recv_raw_loop d1 (sz - int (length chunk)) (parts @ [chunk]) of
                (Inl e, d') \<Rightarrow> e = IOError
              | (Inr ps, d') \<Rightarrow> int (length (concat ps))
                   \<le> int (length (concat (parts @ [chunk]))) + (sz - int (length chunk))" .
        moreover have "recv_raw_loop d sz parts
            = recv_raw_loop d1 (sz - int (length chunk)) (parts @ [chunk])"
          using \<open>sz > 0\<close> rd Inr False by (simp add: recv_raw_loop.simps [of d sz])
        ultimately show ?thesis by (auto split: prod.splits sum.splits)
      qed
    qed
  qed
qed

lemma recv_raw_loop_no_fault:
  "Fault \<notin> set (rx d) \<Longrightarrow> \<exists>ps d'. recv_raw_loop d sz parts = (Inr ps, d')"
proof (induction d sz parts rule: recv_raw_loop.induct)
  case (1 d sz parts)
  show ?case
  proof (cases "sz > 0")
    case False
    then show ?thesis by (simp add: recv_raw_loop.simps [of d sz])
  next
    case True
    from dev_read_no_fault [OF "1.prems", of sz] obtain chunk d1
      where rd: "dev_read d sz = (Inr chunk, d1)" and nf: "Fault \<notin> set (rx d1)" by blast
    show ?thesis
    proof (cases "length chunk = 0")
      case True
      with \<open>sz > 0\<close> rd show ?thesis by (simp add: recv_raw_loop.simps [of d sz])
    next
      case False
      have rd': "(Inr chunk, d1) = (if is_usb d then dev_read d sz else dev_read d sz)"
        using rd by simp
      from "1.IH" [OF True rd' refl False nf]
      obtain ps d' where "recv_raw_loop d1 (sz - int (length chunk)) (parts @ [chunk]) = (Inr ps, d')"
        by blast
      with \<open>sz > 0\<close> rd False show ?thesis by (simp add: recv_raw_loop.simps [of d sz])
    qed
  qed
qed

text \<open>
  C10. For every non-negative requested size, \<open>recv_raw\<close> returns a buffer no longer than
  the size, however the channel cuts the data into blocks: it fails only when a read of the
  channel fails, it returns whenever no read fails, and for size 0 it returns the empty
  buffer without reading.
\<close>

theorem recv_raw_at_most_size:
  "0 \<le> sz \<Longrightarrow>
     (case recv_raw d sz of
        (Inl e, d') \<Rightarrow> e = IOError
      | (Inr buf, d') \<Rightarrow> int (length buf) \<le> sz) \<and>
     (Fault \<notin> set (rx d) \<longrightarrow> (\<exists>buf d'. recv_raw d sz = (Inr buf, d'))) \<and>
     recv_raw d 0 = (Inr [], d)"
proof (intro conjI impI)
  assume sz: "0 \<le> sz"
  from recv_raw_loop_bound [OF sz, where d = d and parts = "[]"]
  show "case recv_raw d sz of (Inl e, d') \<Rightarrow> e = IOError
        | (Inr buf, d') \<Rightarrow> int (length buf) \<le> sz"
    by (auto simp: recv_raw_def split: prod.splits sum.splits)
next
  assume "Fault \<notin> set (rx d)"
  from recv_raw_loop_no_fault [OF this, where sz = sz and parts = "[]"]
  show "\<exists>buf d'. recv_raw d sz = (Inr buf, d')" by (auto simp: recv_raw_def)
next
  show "recv_raw d 0 = (Inr [], d)"
    by (simp add: recv_raw_def recv_raw_loop.simps [of d 0])
qed

lemma recv_raw_example:
  "recv_raw (holds False [''ab'', ''cdef'', ''gh'']) 5
     = (Inr ''abcde'', (holds False [''ab'', ''cdef'', ''gh''])\<lparr>rx := [Data ''f'', Data ''gh'']\<rparr>)"
  by (simp add: recv_raw_def holds_def dev_read_def
        recv_raw_loop.simps [of _ 5] recv_raw_loop.simps [of _ 3] recv_raw_loop.simps [of _ 0])

theorem recv_raw_at_most_size_witness:
  "(0::int) \<le> 5 \<and> Fault \<notin> set (rx (holds False [''ab'', ''cdef'', ''gh''])) \<and>
   fst (recv_raw (holds False [''ab'', ''cdef'', ''gh'']) 5) = Inr ''abcde'' \<and>
   int (length ''abcde'') \<le> 5 \<and>
   recv_raw (holds False [''ab'', ''cdef'', ''gh'']) 0
     = (Inr [], holds False [''ab'', ''cdef'', ''gh''])"
proof -
  have a: "(0::int) \<le> 5" by simp
  have b: "Fault \<notin> set (rx (holds False [''ab'', ''cdef'', ''gh'']))"
    by (simp add: holds_def)
  from recv_raw_at_most_size [OF a, of "holds False [''ab'', ''cdef'', ''gh'']"] b
    recv_raw_example
  show ?thesis by simp
qed

subsection \<open>Plain requests\<close>

lemma has_data_empty: "rx d = [] \<Longrightarrow> \<not> has_data d t"
  by (auto dest: has_data_rx)

lemma flush_loop_empty: "rx d = [] \<Longrightarrow> flush_loop d t dat = (Inr dat, d)"
  by (simp add: flush_loop.simps [of d] has_data_empty)

lemma recv_sock_loop_empty: "rx d = [] \<Longrightarrow> recv_sock_loop d t data = (Inr data, d)"
  by (simp add: recv_sock_loop.simps [of d] has_data_empty)

text \<open>
  A quiet socket device that answers with one block of at most 256 bytes: the exchange
  yields that block.
\<close>

lemma exchange_answers:
  "length r \<le> 256 \<Longrightarrow> fst (exchange (answers False r) (Bytes m)) = Inr r"
  by (simp add: exchange_def answers_def flush_def flush_loop_empty send_def send_raw_def
        dev_write_def recv_def dev_read_def recv_sock_loop_empty)

lemma startswith_iff: "startswith s p \<longleftrightarrow> (\<exists>r. s = p @ r)"
  unfolding startswith_def
  by (metis append_eq_conv_conj append_take_drop_id)

lemma ask_exchange:
  "ask d c =
     (case exchange d c of
        (Inl e, d') \<Rightarrow> (Inl e, d')
      | (Inr raw, d') \<Rightarrow>
          if startswith (strip raw) ''ERR:''
          then (Inl (RuntimeError (strip (drop 4 (strip raw)))), d')
          else (Inr (strip raw), d'))"
  by (simp add: ask_def exchange_def Let_def split: prod.splits sum.splits)

lemma length_line: "length (line s) = length s + 2"
  by (simp add: line_def CRLF_def)

lemma strip_ERR_foo: "strip (line ''ERR:foo'') = ''ERR:foo''"
  by (simp add: line_def strip_def lstrip_def rstrip_def is_space_def CRLF_def)

lemma strip_foo: "strip ''foo'' = ''foo''"
  by (simp add: strip_def lstrip_def rstrip_def is_space_def)

lemma strip_OK: "strip (line ''OK'') = ''OK''"
  by (simp add: line_def strip_def lstrip_def rstrip_def is_space_def CRLF_def)

lemma strip_FAIL: "strip (line ''FAIL'') = ''FAIL''"
  by (simp add: line_def strip_def lstrip_def rstrip_def is_space_def CRLF_def)

text \<open>
  C3. When the trimmed response of the device begins with \<open>ERR:\<close>, \<open>ask\<close> fails with the
  rest of the response after that prefix, trimmed, as its message; when the trimmed response
  does not begin with \<open>ERR:\<close>, \<open>ask\<close> returns the trimmed response.
\<close>

theorem ask_reports_device_error:
  "fst (exchange d c) = Inr raw \<Longrightarrow>
     (startswith (strip raw) ''ERR:'' \<longrightarrow>
        (\<exists>rest. strip raw = ''ERR:'' @ rest \<and>
                ask d c = (Inl (RuntimeError (strip rest)), snd (exchange d c)))) \<and>
     (\<not> startswith (strip raw) ''ERR:'' \<longrightarrow>
        ask d c = (Inr (strip raw), snd (exchange d c)))"
proof (intro conjI impI)
  assume ex: "fst (exchange d c) = Inr raw" and sw: "startswith (strip raw) ''ERR:''"
  then obtain rest where rest: "strip raw = ''ERR:'' @ rest" by (auto simp: startswith_iff)
  from ex sw have "ask d c = (Inl (RuntimeError (strip (drop 4 (strip raw)))), snd (exchange d c))"
    by (cases "exchange d c") (simp add: ask_exchange)
  with rest show "\<exists>rest. strip raw = ''ERR:'' @ rest \<and>
      ask d c = (Inl (RuntimeError (strip rest)), snd (exchange d c))" by simp
next
  assume "fst (exchange d c) = Inr raw" and "\<not> startswith (strip raw) ''ERR:''"
  then show "ask d c = (Inr (strip raw), snd (exchange d c))"
    by (cases "exchange d c") (simp add: ask_exchange)
qed

theorem ask_reports_device_error_witness:
  "fst (exchange (answers False (line ''ERR:foo'')) (Bytes ''get'')) = Inr (line ''ERR:foo'') \<and>
   startswith (strip (line ''ERR:foo'')) ''ERR:'' \<and>
   fst (ask (answers False (line ''ERR:foo'')) (Bytes ''get'')) = Inl (RuntimeError ''foo'') \<and>
   fst (exchange (answers False (line ''OK'')) (Bytes ''get'')) = Inr (line ''OK'') \<and>
   \<not> startswith (strip (line ''OK'')) ''ERR:'' \<and>
   fst (ask (answers False (line ''OK'')) (Bytes ''get'')) = Inr ''OK''"
proof -
  have e1: "fst (exchange (answers False (line ''ERR:foo'')) (Bytes ''get''))
              = Inr (line ''ERR:foo'')"
    by (rule exchange_answers) (simp add: length_line)
  have e2: "fst (exchange (answers False (line ''OK'')) (Bytes ''get'')) = Inr (line ''OK'')"
    by (rule exchange_answers) (simp add: length_line)
  have s1: "startswith (strip (line ''ERR:foo'')) ''ERR:''"
    by (simp add: strip_ERR_foo startswith_def)
  have s2: "\<not> startswith (strip (line ''OK'')) ''ERR:''"
    by (simp add: strip_OK startswith_def)
  from ask_reports_device_error [OF e1] s1
  have "fst (ask (answers False (line ''ERR:foo'')) (Bytes ''get'')) = Inl (RuntimeError ''foo'')"
    by (auto simp: strip_ERR_foo strip_foo)
  moreover from ask_reports_device_error [OF e2] s2
  have "fst (ask (answers False (line ''OK'')) (Bytes ''get'')) = Inr ''OK''"
    by (simp add: strip_OK)
  ultimately show ?thesis using e1 e2 s1 s2 by simp
qed

text \<open>
  C6, as the code has it. \<open>cmd\<close> succeeds exactly when the trimmed response of the device
  begins with \<open>OK\<close>, and then returns the trimmed response; a trimmed response that begins
  with neither \<open>OK\<close> nor \<open>ERR:\<close> makes \<open>cmd\<close> fail with the trimmed response as the payload;
  a trimmed response that begins with \<open>ERR:\<close> makes it fail, inside \<open>ask\<close>, with the trimmed
  rest after the prefix.
\<close>

theorem cmd_checks_OK:
  "fst (exchange d c) = Inr raw \<Longrightarrow>
     (startswith (strip raw) ''OK'' \<longrightarrow> cmd d c = (Inr (strip raw), snd (exchange d c))) \<and>
     (\<not> startswith (strip raw) ''OK'' \<longrightarrow> isl (fst (cmd d c))) \<and>
     (\<not> startswith (strip raw) ''OK'' \<and> \<not> startswith (strip raw) ''ERR:'' \<longrightarrow>
        cmd d c = (Inl (RuntimeError (strip raw)), snd (exchange d c))) \<and>
     (startswith (strip raw) ''ERR:'' \<longrightarrow>
        cmd d c = (Inl (RuntimeError (strip (drop 4 (strip raw)))), snd (exchange d c)))"
proof -
  assume ex: "fst (exchange d c) = Inr raw"
  have ne: "startswith (strip raw) ''OK'' \<Longrightarrow> \<not> startswith (strip raw) ''ERR:''"
    by (auto simp: startswith_iff)
  from ex show ?thesis
    by (cases "exchange d c") (auto simp: cmd_def ask_exchange dest: ne)
qed

theorem cmd_checks_OK_witness:
  "fst (exchange (answers False (line ''OK'')) (Bytes ''set'')) = Inr (line ''OK'') \<and>
   startswith (strip (line ''OK'')) ''OK'' \<and>
   fst (cmd (answers False (line ''OK'')) (Bytes ''set'')) = Inr ''OK'' \<and>
   fst (exchange (answers False (line ''FAIL'')) (Bytes ''set'')) = Inr (line ''FAIL'') \<and>
   \<not> startswith (strip (line ''FAIL'')) ''OK'' \<and>
   \<not> startswith (strip (line ''FAIL'')) ''ERR:'' \<and>
   fst (cmd (answers False (line ''FAIL'')) (Bytes ''set'')) = Inl (RuntimeError ''FAIL'') \<and>
   fst (exchange (answers False (line ''ERR:foo'')) (Bytes ''set'')) = Inr (line ''ERR:foo'') \<and>
   startswith (strip (line ''ERR:foo'')) ''ERR:'' \<and>
   fst (cmd (answers False (line ''ERR:foo'')) (Bytes ''set'')) = Inl (RuntimeError ''foo'')"
proof -
  have e1: "fst (exchange (answers False (line ''OK'')) (Bytes ''set'')) = Inr (line ''OK'')"
    by (rule exchange_answers) (simp add: length_line)
  have e2: "fst (exchange (answers False (line ''FAIL'')) (Bytes ''set''))
              = Inr (line ''FAIL'')"
    by (rule exchange_answers) (simp add: length_line)
  have e3: "fst (exchange (answers False (line ''ERR:foo'')) (Bytes ''set''))
              = Inr (line ''ERR:foo'')"
    by (rule exchange_answers) (simp add: length_line)
  have s: "startswith ''OK'' ''OK''" "\<not> startswith ''FAIL'' ''OK''"
    "\<not> startswith ''FAIL'' ''ERR:''" "startswith ''ERR:foo'' ''ERR:''"
    by (simp_all add: startswith_def)
  from cmd_checks_OK [OF e1] cmd_checks_OK [OF e2] cmd_checks_OK [OF e3] e1 e2 e3 s
  show ?thesis by (simp add: strip_OK strip_FAIL strip_ERR_foo strip_foo)
qed

text \<open>
  C6 as stated fails: the response \<open>ERR:foo\<close> does not begin with \<open>OK\<close>, and \<open>cmd\<close> fails
  with the payload \<open>foo\<close>, which is neither the response as received nor the trimmed one.
\<close>

theorem cmd_raw_payload_counterexample:
  "fst (exchange (answers False (line ''ERR:foo'')) (Bytes ''set'')) = Inr (line ''ERR:foo'') \<and>
   \<not> startswith (strip (line ''ERR:foo'')) ''OK'' \<and>
   fst (cmd (answers False (line ''ERR:foo'')) (Bytes ''set'')) = Inl (RuntimeError ''foo'') \<and>
   fst (cmd (answers False (line ''ERR:foo'')) (Bytes ''set''))
     \<noteq> Inl (RuntimeError (line ''ERR:foo'')) \<and>
   fst (cmd (answers False (line ''ERR:foo'')) (Bytes ''set''))
     \<noteq> Inl (RuntimeError (strip (line ''ERR:foo'')))"
proof -
  have e1: "fst (exchange (answers False (line ''ERR:foo'')) (Bytes ''set''))
      = Inr (line ''ERR:foo'')"
    by (rule exchange_answers) (simp add: length_line)
  then have e: "exchange (answers False (line ''ERR:foo'')) (Bytes ''set'')
      = (Inr (line ''ERR:foo''), snd (exchange (answers False (line ''ERR:foo'')) (Bytes ''set'')))"
    by (cases "exchange (answers False (line ''ERR:foo'')) (Bytes ''set'')") simp
  have c: "fst (cmd (answers False (line ''ERR:foo'')) (Bytes ''set'')) = Inl (RuntimeError ''foo'')"
    by (subst cmd_def, subst ask_exchange, subst e)
       (simp add: strip_ERR_foo startswith_def strip_foo)
  have n: "''foo'' \<noteq> line ''ERR:foo''" by (simp add: line_def)
  from e1 c n show ?thesis by (simp add: strip_ERR_foo startswith_def)
qed

subsection \<open>Dictionary responses\<close>

lemma ask_returns:
  "fst (exchange d c) = Inr raw \<Longrightarrow> \<not> startswith (strip raw) ''ERR:'' \<Longrightarrow>
     ask d c = (Inr (strip raw), snd (exchange d c))"
  by (cases "exchange d c") (simp add: ask_exchange)

lemma set_strip: "set (strip s) \<subseteq> set s"
  by (auto simp: strip_def lstrip_def rstrip_def dest!: set_dropWhileD)

lemma no_colon_not_ERR: "CHR '':'' \<notin> set s \<Longrightarrow> \<not> startswith s ''ERR:''"
  by (auto simp: startswith_iff)

lemma OK_not_ERR: "startswith s ''OK'' \<Longrightarrow> \<not> startswith s ''ERR:''"
  by (auto simp: startswith_iff)

lemma strip_lstrip_fix:
  assumes "s \<noteq> []" and "\<not> is_space (hd s)"
  shows "lstrip (rstrip s) = rstrip s"
proof -
  from assms obtain x xs where s: "s = x # xs" and x: "\<not> is_space x" by (cases s) auto
  have "rstrip s
        = x # rev (if \<forall>y\<in>set xs. is_space y then [] else dropWhile is_space (rev xs))"
    using x by (simp add: rstrip_def s dropWhile_append)
  with x show ?thesis by (simp add: lstrip_def)
qed

lemma rstrip_rstrip: "rstrip (rstrip s) = rstrip s"
  by (simp add: rstrip_def dropWhile_idem)

lemma strip_strip: "strip (strip s) = strip s"
proof (cases "lstrip s = []")
  case True
  then have e: "strip s = []" by (simp add: strip_def rstrip_def)
  have "strip [] = []" by (simp add: strip_def rstrip_def lstrip_def)
  with e show ?thesis by simp
next
  case False
  then have "\<not> is_space (hd (lstrip s))" by (simp add: lstrip_def hd_dropWhile)
  with False have "lstrip (rstrip (lstrip s)) = rstrip (lstrip s)" by (rule strip_lstrip_fix)
  then show ?thesis by (simp add: strip_def rstrip_rstrip)
qed

lemmas strip_simps = strip_def lstrip_def rstrip_def is_space_def

lemmas split_simps = bytes_split_def bytes_split_max_def split_all_def contains_def
  startswith_def LF_def

text \<open>
  C2. For the response \<open>OK name1:1,name2:2\<close>, \<open>ask_dict\<close> returns the ordered mapping of
  \<open>name1\<close> to \<open>1\<close> and \<open>name2\<close> to \<open>2\<close>; for the response \<open>a:1\<close> LF \<open>b:2\<close>, with no comma, it
  returns the mapping of \<open>a\<close> to \<open>1\<close> and \<open>b\<close> to \<open>2\<close>; and for every response with no colon,
  a leading \<open>OK\<close> set aside, it fails with the not-a-dictionary error.
\<close>

theorem ask_dict_parses:
  "fst (exchange d c) = Inr raw \<Longrightarrow>
     (strip raw = ''OK name1:1,name2:2'' \<longrightarrow>
        ask_dict d c = (Inr [(''name1'', ''1''), (''name2'', ''2'')], snd (exchange d c))) \<and>
     (strip raw = [CHR ''a'', CHR '':'', CHR ''1'', LF, CHR ''b'', CHR '':'', CHR ''2''] \<longrightarrow>
        ask_dict d c = (Inr [(''a'', ''1''), (''b'', ''2'')], snd (exchange d c))) \<and>
     (CHR '':'' \<notin> set (if startswith (strip raw) ''OK'' then drop 2 (strip raw) else strip raw)
        \<longrightarrow> ask_dict d c = (Inl (NotADictionary c), snd (exchange d c)))"
proof (intro conjI impI)
  assume ex: "fst (exchange d c) = Inr raw" and r: "strip raw = ''OK name1:1,name2:2''"
  then have "\<not> startswith (strip raw) ''ERR:''" by (simp add: startswith_def)
  with ex have "ask d c = (Inr (strip raw), snd (exchange d c))" by (rule ask_returns)
  then have "ask d c = (Inr ''OK name1:1,name2:2'', snd (exchange d c))" by (simp only: r)
  then show "ask_dict d c = (Inr [(''name1'', ''1''), (''name2'', ''2'')], snd (exchange d c))"
    by (simp add: ask_dict_def Let_def split_simps strip_simps)
next
  assume ex: "fst (exchange d c) = Inr raw" and r: "strip raw = [CHR ''a'', CHR '':'', CHR ''1'', LF, CHR ''b'', CHR '':'', CHR ''2'']"
  then have "\<not> startswith (strip raw) ''ERR:''" by (simp add: startswith_def)
  with ex have "ask d c = (Inr (strip raw), snd (exchange d c))" by (rule ask_returns)
  then have "ask d c = (Inr [CHR ''a'', CHR '':'', CHR ''1'', LF, CHR ''b'', CHR '':'', CHR ''2''],
      snd (exchange d c))" by (simp only: r)
  then show "ask_dict d c = (Inr [(''a'', ''1''), (''b'', ''2'')], snd (exchange d c))"
    by (simp add: ask_dict_def Let_def split_simps strip_simps)
next
  assume ex: "fst (exchange d c) = Inr raw"
    and nc: "CHR '':'' \<notin> set (if startswith (strip raw) ''OK'' then drop 2 (strip raw)
                                 else strip raw)"
  show "ask_dict d c = (Inl (NotADictionary c), snd (exchange d c))"
  proof (cases "startswith (strip raw) ''OK''")
    case True
    then have "\<not> startswith (strip raw) ''ERR:''" by (rule OK_not_ERR)
    with ex have a: "ask d c = (Inr (strip raw), snd (exchange d c))" by (rule ask_returns)
    have "set (strip (drop 3 (strip raw))) \<subseteq> set (drop 2 (strip raw))"
      using set_strip [of "drop 3 (strip raw)"]
        set_drop_subset_set_drop [of 2 3 "strip raw"] by auto
    with nc True have "CHR '':'' \<notin> set (strip (drop 3 (strip raw)))" by auto
    with a True show ?thesis by (simp add: ask_dict_def Let_def contains_def)
  next
    case False
    with nc have n: "CHR '':'' \<notin> set (strip raw)" by simp
    then have "\<not> startswith (strip raw) ''ERR:''" by (rule no_colon_not_ERR)
    with ex have "ask d c = (Inr (strip raw), snd (exchange d c))" by (rule ask_returns)
    with False n show ?thesis by (simp add: ask_dict_def Let_def contains_def)
  qed
qed

lemma strip_line_examples:
  "strip (line ''OK name1:1,name2:2'') = ''OK name1:1,name2:2''"
  "strip (line [CHR ''a'', CHR '':'', CHR ''1'', LF, CHR ''b'', CHR '':'', CHR ''2''])
     = [CHR ''a'', CHR '':'', CHR ''1'', LF, CHR ''b'', CHR '':'', CHR ''2'']"
  "strip (line ''OK,UC:1.2,DRV:3.4'') = ''OK,UC:1.2,DRV:3.4''"
  "strip (line ''Command not defined'') = ''Command not defined''"
  "strip (line ''1.2.3'') = ''1.2.3''"
  "strip (line [CHR ''U'', CHR ''C'', CHR '':'', CHR ''1'', CHR ''.'', CHR ''2'', LF,
                CHR ''D'', CHR ''R'', CHR ''V'', CHR '':'', CHR ''3'', CHR ''.'', CHR ''4''])
     = [CHR ''U'', CHR ''C'', CHR '':'', CHR ''1'', CHR ''.'', CHR ''2'', LF,
        CHR ''D'', CHR ''R'', CHR ''V'', CHR '':'', CHR ''3'', CHR ''.'', CHR ''4'']"
  by (simp_all add: line_def CRLF_def LF_def strip_simps)

theorem ask_dict_parses_witness:
  "fst (exchange (answers False (line ''OK name1:1,name2:2'')) (Bytes ''get''))
     = Inr (line ''OK name1:1,name2:2'') \<and>
   strip (line ''OK name1:1,name2:2'') = ''OK name1:1,name2:2'' \<and>
   fst (ask_dict (answers False (line ''OK name1:1,name2:2'')) (Bytes ''get''))
     = Inr [(''name1'', ''1''), (''name2'', ''2'')] \<and>
   fst (exchange
          (answers False (line [CHR ''a'', CHR '':'', CHR ''1'', LF, CHR ''b'', CHR '':'', CHR ''2'']))
          (Bytes ''get''))
     = Inr (line [CHR ''a'', CHR '':'', CHR ''1'', LF, CHR ''b'', CHR '':'', CHR ''2'']) \<and>
   fst (ask_dict
          (answers False (line [CHR ''a'', CHR '':'', CHR ''1'', LF, CHR ''b'', CHR '':'', CHR ''2'']))
          (Bytes ''get''))
     = Inr [(''a'', ''1''), (''b'', ''2'')] \<and>
   fst (exchange (answers False (line ''OK'')) (Bytes ''get'')) = Inr (line ''OK'') \<and>
   startswith (strip (line ''OK'')) ''OK'' \<and>
   CHR '':'' \<notin> set (drop 2 (strip (line ''OK''))) \<and>
   fst (ask_dict (answers False (line ''OK'')) (Bytes ''get''))
     = Inl (NotADictionary (Bytes ''get''))"
proof -
  have e1: "fst (exchange (answers False (line ''OK name1:1,name2:2'')) (Bytes ''get''))
              = Inr (line ''OK name1:1,name2:2'')"
    by (rule exchange_answers) (simp add: length_line)
  have e2: "fst (exchange
          (answers False (line [CHR ''a'', CHR '':'', CHR ''1'', LF, CHR ''b'', CHR '':'', CHR ''2'']))
          (Bytes ''get''))
     = Inr (line [CHR ''a'', CHR '':'', CHR ''1'', LF, CHR ''b'', CHR '':'', CHR ''2''])"
    by (rule exchange_answers) (simp add: length_line)
  have e3: "fst (exchange (answers False (line ''OK'')) (Bytes ''get'')) = Inr (line ''OK'')"
    by (rule exchange_answers) (simp add: length_line)
  have s: "startswith ''OK'' ''OK''" by (simp add: startswith_def)
  from ask_dict_parses [OF e1] ask_dict_parses [OF e2] ask_dict_parses [OF e3] e1 e2 e3 s
  show ?thesis by (simp add: strip_line_examples strip_OK)
qed

subsection \<open>Versions\<close>

text \<open>
  C5. On the response \<open>OK,UC:1.2,DRV:3.4\<close>, \<open>versions\<close> returns the mapping of \<open>UC\<close> to \<open>1.2\<close>
  and \<open>DRV\<close> to \<open>3.4\<close>; on the response \<open>Command not defined\<close> it fails with the
  incompatible-firmware error; on a response with no colon, such as \<open>1.2.3\<close>, it returns the
  single entry of \<open>UC\<close> with the trimmed response.
\<close>

theorem versions_parses:
  "fst (exchange d (Bytes ''version'')) = Inr raw \<Longrightarrow>
     (strip raw = ''OK,UC:1.2,DRV:3.4'' \<longrightarrow>
        versions d = (Inr [(''UC'', ''1.2''), (''DRV'', ''3.4'')],
                      snd (exchange d (Bytes ''version'')))) \<and>
     (strip raw = ''Command not defined'' \<longrightarrow>
        versions d = (Inl (RuntimeError ''Incompatible firmware''),
                      snd (exchange d (Bytes ''version'')))) \<and>
     (CHR '':'' \<notin> set (strip raw) \<and> strip raw \<noteq> ''Command not defined'' \<longrightarrow>
        versions d = (Inr [(''UC'', strip raw)], snd (exchange d (Bytes ''version''))))"
proof (intro conjI impI)
  assume ex: "fst (exchange d (Bytes ''version'')) = Inr raw"
    and r: "strip raw = ''OK,UC:1.2,DRV:3.4''"
  then have "\<not> startswith (strip raw) ''ERR:''" by (simp add: startswith_def)
  with ex have "ask d (Bytes ''version'') = (Inr (strip raw), snd (exchange d (Bytes ''version'')))"
    by (rule ask_returns)
  then have "ask d (Bytes ''version'')
      = (Inr ''OK,UC:1.2,DRV:3.4'', snd (exchange d (Bytes ''version'')))" by (simp only: r)
  then show "versions d = (Inr [(''UC'', ''1.2''), (''DRV'', ''3.4'')],
                           snd (exchange d (Bytes ''version'')))"
    by (simp add: versions_def split_simps strip_simps numeral_2_eq_2)
next
  assume ex: "fst (exchange d (Bytes ''version'')) = Inr raw"
    and r: "strip raw = ''Command not defined''"
  then have "\<not> startswith (strip raw) ''ERR:''" by (simp add: startswith_def)
  with ex have "ask d (Bytes ''version'') = (Inr (strip raw), snd (exchange d (Bytes ''version'')))"
    by (rule ask_returns)
  with r show "versions d = (Inl (RuntimeError ''Incompatible firmware''),
                             snd (exchange d (Bytes ''version'')))"
    by (simp add: versions_def)
next
  assume ex: "fst (exchange d (Bytes ''version'')) = Inr raw"
    and nc: "CHR '':'' \<notin> set (strip raw) \<and> strip raw \<noteq> ''Command not defined''"
  then have "\<not> startswith (strip raw) ''ERR:''" by (simp add: no_colon_not_ERR)
  with ex have "ask d (Bytes ''version'') = (Inr (strip raw), snd (exchange d (Bytes ''version'')))"
    by (rule ask_returns)
  with nc show "versions d = (Inr [(''UC'', strip raw)], snd (exchange d (Bytes ''version'')))"
    by (simp add: versions_def contains_def strip_strip)
qed

theorem versions_parses_witness:
  "fst (exchange (answers False (line ''OK,UC:1.2,DRV:3.4'')) (Bytes ''version''))
     = Inr (line ''OK,UC:1.2,DRV:3.4'') \<and>
   strip (line ''OK,UC:1.2,DRV:3.4'') = ''OK,UC:1.2,DRV:3.4'' \<and>
   fst (versions (answers False (line ''OK,UC:1.2,DRV:3.4'')))
     = Inr [(''UC'', ''1.2''), (''DRV'', ''3.4'')] \<and>
   fst (exchange (answers False (line ''Command not defined'')) (Bytes ''version''))
     = Inr (line ''Command not defined'') \<and>
   strip (line ''Command not defined'') = ''Command not defined'' \<and>
   fst (versions (answers False (line ''Command not defined'')))
     = Inl (RuntimeError ''Incompatible firmware'') \<and>
   fst (exchange (answers False (line ''1.2.3'')) (Bytes ''version'')) = Inr (line ''1.2.3'') \<and>
   CHR '':'' \<notin> set (strip (line ''1.2.3'')) \<and>
   strip (line ''1.2.3'') \<noteq> ''Command not defined'' \<and>
   fst (versions (answers False (line ''1.2.3''))) = Inr [(''UC'', ''1.2.3'')]"
proof -
  have e1: "fst (exchange (answers False (line ''OK,UC:1.2,DRV:3.4'')) (Bytes ''version''))
     = Inr (line ''OK,UC:1.2,DRV:3.4'')"
    by (rule exchange_answers) (simp add: length_line)
  have e2: "fst (exchange (answers False (line ''Command not defined'')) (Bytes ''version''))
     = Inr (line ''Command not defined'')"
    by (rule exchange_answers) (simp add: length_line)
  have e3: "fst (exchange (answers False (line ''1.2.3'')) (Bytes ''version''))
     = Inr (line ''1.2.3'')"
    by (rule exchange_answers) (simp add: length_line)
  from versions_parses [OF e1] versions_parses [OF e2] versions_parses [OF e3] e1 e2 e3
  show ?thesis by (simp add: strip_line_examples)
qed

text \<open>
  C1. The specification has it that a version response with a colon and a newline but no comma yields
  the mapping of the trimmed names to the trimmed versions. The code splits such a response
  with the str separator \<open>"\n"\<close>, which \<open>bytes.split\<close> rejects: every response with a colon
  and no comma (and no \<open>ERR:\<close> prefix) makes \<open>versions\<close> fail with \<open>TypeError\<close>.
\<close>

theorem versions_newline_form_fails:
  "fst (exchange d (Bytes ''version'')) = Inr raw \<Longrightarrow>
   CHR '':'' \<in> set (strip raw) \<Longrightarrow> CHR '','' \<notin> set (strip raw) \<Longrightarrow>
   \<not> startswith (strip raw) ''ERR:'' \<Longrightarrow>
     versions d = (Inl TypeError, snd (exchange d (Bytes ''version'')))"
proof -
  assume ex: "fst (exchange d (Bytes ''version'')) = Inr raw"
    and c: "CHR '':'' \<in> set (strip raw)" and nc: "CHR '','' \<notin> set (strip raw)"
    and ne: "\<not> startswith (strip raw) ''ERR:''"
  from c have "strip raw \<noteq> ''Command not defined''" by auto
  moreover from ex ne
  have "ask d (Bytes ''version'') = (Inr (strip raw), snd (exchange d (Bytes ''version'')))"
    by (rule ask_returns)
  ultimately show ?thesis using c nc
    by (simp add: versions_def contains_def bytes_split_def)
qed

theorem versions_newline_form_fails_witness:
  "fst (exchange
          (answers False
             (line [CHR ''U'', CHR ''C'', CHR '':'', CHR ''1'', CHR ''.'', CHR ''2'', LF,
                    CHR ''D'', CHR ''R'', CHR ''V'', CHR '':'', CHR ''3'', CHR ''.'', CHR ''4'']))
          (Bytes ''version''))
     = Inr (line [CHR ''U'', CHR ''C'', CHR '':'', CHR ''1'', CHR ''.'', CHR ''2'', LF,
                  CHR ''D'', CHR ''R'', CHR ''V'', CHR '':'', CHR ''3'', CHR ''.'', CHR ''4'']) \<and>
   fst (versions
          (answers False
             (line [CHR ''U'', CHR ''C'', CHR '':'', CHR ''1'', CHR ''.'', CHR ''2'', LF,
                    CHR ''D'', CHR ''R'', CHR ''V'', CHR '':'', CHR ''3'', CHR ''.'', CHR ''4''])))
     = Inl TypeError"
proof -
  let ?r = "[CHR ''U'', CHR ''C'', CHR '':'', CHR ''1'', CHR ''.'', CHR ''2'', LF,
             CHR ''D'', CHR ''R'', CHR ''V'', CHR '':'', CHR ''3'', CHR ''.'', CHR ''4'']"
  have e: "fst (exchange (answers False (line ?r)) (Bytes ''version'')) = Inr (line ?r)"
    by (rule exchange_answers) (simp add: length_line)
  have a: "CHR '':'' \<in> set (strip (line ?r))" "CHR '','' \<notin> set (strip (line ?r))"
    "\<not> startswith (strip (line ?r)) ''ERR:''"
    by (simp_all only: strip_line_examples) (simp_all add: startswith_def LF_def)
  from versions_newline_form_fails [OF e a] e show ?thesis by simp
qed

subsection \<open>Binary responses\<close>

lemma recv_raw_length:
  "recv_raw d sz = (Inr buf, d') \<Longrightarrow> 0 \<le> sz \<Longrightarrow> int (length buf) \<le> sz"
  using recv_raw_loop_bound [where sz = sz and d = d and parts = "[]"]
  by (auto simp: recv_raw_def split: prod.splits sum.splits)

lemma unpack_L_bound: "unpack_L h = Inr N \<Longrightarrow> N < 2 ^ 32"
proof -
  have b: "\<And>c. of_char c \<le> (255 :: nat)"
    using nat_of_char_less_256 by (simp add: less_Suc_eq_le [symmetric])
  assume "unpack_L h = Inr N"
  then obtain b0 b1 b2 b3 where
    "N = of_char b0 + 256 * of_char b1 + 65536 * of_char b2 + 16777216 * of_char b3"
    by (auto simp: unpack_L_def split: list.splits)
  with b [of b0] b [of b1] b [of b2] b [of b3] show ?thesis by simp
qed

lemma unpack_L_4:
  "length h = 4 \<Longrightarrow>
     unpack_L h = Inr (of_char (h ! 0) + 256 * of_char (h ! 1) + 65536 * of_char (h ! 2)
                       + 16777216 * of_char (h ! 3))"
  by (cases h rule: list.exhaust; simp add: unpack_L_def split: list.splits)
     (auto simp: nth_Cons' length_Suc_conv)

text \<open>
  C4. \<open>ask_bin\<close> sends the command and reads a header of 4 bytes. If the header is \<open>ERR:\<close>,
  it fails with the text response that follows, trimmed. Otherwise the header, read as an
  unsigned 32-bit number with the least significant byte first, is the length \<open>N\<close>;
  \<open>recv_raw\<close> is asked for \<open>N\<close> bytes and returns at most \<open>N\<close>; when it returns \<open>N\<close> bytes they
  are the result, and when it returns fewer \<open>ask_bin\<close> fails with the incorrect-length error.
\<close>

theorem ask_bin_reads_block:
  fixes d :: device and c :: pyval
  defines "d1 \<equiv> snd (send d c)"
  defines "d2 \<equiv> snd (recv_raw d1 4)"
  assumes snd: "fst (send d c) = Inr ()"
    and hd: "fst (recv_raw d1 4) = Inr head"
    and len: "length head = 4"
  shows
    "(head = ''ERR:'' \<and> fst (recv d2) = Inr msg \<longrightarrow>
        ask_bin d c = (Inl (RuntimeError (strip msg)), snd (recv d2))) \<and>
     (head \<noteq> ''ERR:'' \<longrightarrow>
        (\<exists>N. N = of_char (head ! 0) + 256 * of_char (head ! 1) + 65536 * of_char (head ! 2)
                   + 16777216 * of_char (head ! 3) \<and>
              N < 2 ^ 32 \<and>
              (fst (recv_raw d2 (int N)) = Inr data \<longrightarrow>
                 length data \<le> N \<and>
                 (length data = N \<longrightarrow> ask_bin d c = (Inr data, snd (recv_raw d2 (int N)))) \<and>
                 (length data < N \<longrightarrow>
                    ask_bin d c
                      = (Inl (RuntimeError ''Binary response block has incorrect length''),
                         snd (recv_raw d2 (int N)))))))"
proof (intro conjI impI)
  from snd have s: "send d c = (Inr (), d1)" by (cases "send d c") (simp add: d1_def)
  from hd have h: "recv_raw d1 4 = (Inr head, d2)" by (cases "recv_raw d1 4") (simp add: d2_def)
  {
    assume e: "head = ''ERR:'' \<and> fst (recv d2) = Inr msg"
    obtain r3 d3 where r: "recv d2 = (r3, d3)" by (cases "recv d2")
    with s h e show "ask_bin d c = (Inl (RuntimeError (strip msg)), snd (recv d2))"
      by (simp add: ask_bin_def)
  }
  assume ne: "head \<noteq> ''ERR:''"
  define N where "N = of_char (head ! 0) + 256 * of_char (head ! 1) + 65536 * of_char (head ! 2)
                   + 16777216 * (of_char (head ! 3) :: nat)"
  from len have u: "unpack_L head = Inr N" by (simp add: unpack_L_4 N_def)
  then have b: "N < 2 ^ 32" by (rule unpack_L_bound)
  have "fst (recv_raw d2 (int N)) = Inr data \<longrightarrow>
          length data \<le> N \<and>
          (length data = N \<longrightarrow> ask_bin d c = (Inr data, snd (recv_raw d2 (int N)))) \<and>
          (length data < N \<longrightarrow>
             ask_bin d c = (Inl (RuntimeError ''Binary response block has incorrect length''),
                            snd (recv_raw d2 (int N))))"
  proof
    assume f: "fst (recv_raw d2 (int N)) = Inr data"
    obtain d3 where r: "recv_raw d2 (int N) = (Inr data, d3)"
      using f by (cases "recv_raw d2 (int N)") simp
    then have "int (length data) \<le> int N" by (rule recv_raw_length) simp
    then have le: "length data \<le> N" by simp
    from s h ne u r
    have "ask_bin d c =
            (if length data \<noteq> N
             then (Inl (RuntimeError ''Binary response block has incorrect length''),
                   snd (recv_raw d2 (int N)))
             else (Inr data, snd (recv_raw d2 (int N))))"
      by (simp add: ask_bin_def)
    with le show "length data \<le> N \<and>
          (length data = N \<longrightarrow> ask_bin d c = (Inr data, snd (recv_raw d2 (int N)))) \<and>
          (length data < N \<longrightarrow>
             ask_bin d c = (Inl (RuntimeError ''Binary response block has incorrect length''),
                            snd (recv_raw d2 (int N))))"
      by simp
  qed
  with b show "\<exists>N. N = of_char (head ! 0) + 256 * of_char (head ! 1) + 65536 * of_char (head ! 2)
                   + 16777216 * of_char (head ! 3) \<and>
              N < 2 ^ 32 \<and>
              (fst (recv_raw d2 (int N)) = Inr data \<longrightarrow>
                 length data \<le> N \<and>
                 (length data = N \<longrightarrow> ask_bin d c = (Inr data, snd (recv_raw d2 (int N)))) \<and>
                 (length data < N \<longrightarrow>
                    ask_bin d c
                      = (Inl (RuntimeError ''Binary response block has incorrect length''),
                         snd (recv_raw d2 (int N)))))"
    unfolding N_def by blast
qed

lemma ask_bin_example_5:
  "fst (send (answers False (header5 @ ''hello'')) (Bytes ''get'')) = Inr ()"
  "fst (recv_raw (snd (send (answers False (header5 @ ''hello'')) (Bytes ''get''))) 4)
     = Inr header5"
  "fst (recv_raw
          (snd (recv_raw (snd (send (answers False (header5 @ ''hello'')) (Bytes ''get''))) 4))
          5) = Inr ''hello''"
  by code_simp+

lemma ask_bin_example_3:
  "fst (send (answers False (header5 @ ''hel'')) (Bytes ''get'')) = Inr ()"
  "fst (recv_raw (snd (send (answers False (header5 @ ''hel'')) (Bytes ''get''))) 4)
     = Inr header5"
  "fst (recv_raw
          (snd (recv_raw (snd (send (answers False (header5 @ ''hel'')) (Bytes ''get''))) 4))
          5) = Inr ''hel''"
  by code_simp+

lemma ask_bin_example_ERR:
  "fst (send (answers False (line ''ERR: bad block'')) (Bytes ''get'')) = Inr ()"
  "fst (recv_raw (snd (send (answers False (line ''ERR: bad block'')) (Bytes ''get''))) 4)
     = Inr ''ERR:''"
  "fst (recv
          (snd (recv_raw
                  (snd (send (answers False (line ''ERR: bad block'')) (Bytes ''get''))) 4)))
     = Inr (line '' bad block'')"
  by code_simp+

lemma header5_value:
  "length header5 = 4" "header5 \<noteq> ''ERR:''"
  "of_char (header5 ! 0) + 256 * of_char (header5 ! 1) + 65536 * of_char (header5 ! 2)
     + 16777216 * of_char (header5 ! 3) = (5 :: nat)"
  by (simp_all add: header5_def)

lemma strip_bad_block: "strip (line '' bad block'') = ''bad block''"
  by (simp add: line_def CRLF_def strip_simps)

theorem ask_bin_reads_block_witness:
  "fst (send (answers False (header5 @ ''hello'')) (Bytes ''get'')) = Inr () \<and>
   fst (recv_raw (snd (send (answers False (header5 @ ''hello'')) (Bytes ''get''))) 4)
     = Inr header5 \<and>
   length header5 = 4 \<and> header5 \<noteq> ''ERR:'' \<and>
   fst (ask_bin (answers False (header5 @ ''hello'')) (Bytes ''get'')) = Inr ''hello'' \<and>
   fst (ask_bin (answers False (header5 @ ''hel'')) (Bytes ''get''))
     = Inl (RuntimeError ''Binary response block has incorrect length'') \<and>
   fst (recv_raw (snd (send (answers False (line ''ERR: bad block'')) (Bytes ''get''))) 4)
     = Inr ''ERR:'' \<and>
   fst (ask_bin (answers False (line ''ERR: bad block'')) (Bytes ''get''))
     = Inl (RuntimeError ''bad block'')"
proof -
  have l: "length ''ERR:'' = 4" by simp
  from ask_bin_reads_block [OF ask_bin_example_5(1,2) header5_value(1),
      where data = "''hello''"] ask_bin_example_5(3)
  have a: "fst (ask_bin (answers False (header5 @ ''hello'')) (Bytes ''get'')) = Inr ''hello''"
    by (simp add: header5_def)
  from ask_bin_reads_block [OF ask_bin_example_3(1,2) header5_value(1),
      where data = "''hel''"] ask_bin_example_3(3)
  have b: "fst (ask_bin (answers False (header5 @ ''hel'')) (Bytes ''get''))
     = Inl (RuntimeError ''Binary response block has incorrect length'')"
    by (simp add: header5_def)
  from ask_bin_reads_block [OF ask_bin_example_ERR(1,2) l, where msg = "line '' bad block''"]
    ask_bin_example_ERR(3)
  have c: "fst (ask_bin (answers False (line ''ERR: bad block'')) (Bytes ''get''))
     = Inl (RuntimeError ''bad block'')"
    by (simp add: strip_bad_block)
  from a b c ask_bin_example_5(1,2) ask_bin_example_ERR(2) header5_value(1,2)
  show ?thesis by simp
qed

end
